theory Spec2Isabelle
  imports Complex_Main
begin

section \<open>Euclidean cluster extraction (pcl/segmentation/extract_clusters.h)\<close>

text \<open>
  The free functions \<open>pcl::extractEuclideanClusters\<close> grow clusters of point identifiers
  by repeated radius queries against a search tree, filtered by a caller-supplied functor.
  Point identifiers (\<open>index_t\<close>, \<open>std::size_t\<close>, \<open>unsigned\<close>) are natural numbers; no
  arithmetic is done on them apart from counting a loop variable up by one. (\<open>index_t\<close>
  is signed; a negative identifier would be outside every vector, as one beyond the end
  is.)
  Reading or writing a \<open>std::vector\<close> outside its bounds and dereferencing a null
  pointer are undefined behaviour in the source; the model returns a \<open>fault\<close> there.
  \<open>PCL_ERROR\<close> prints a message; the model returns the messages as a list of
  \<open>diagnostic\<close> values beside the \<open>clusters\<close> vector the call leaves behind.
\<close>

subsection \<open>Data\<close>

datatype fault = OutOfRange | NullPointer

datatype diagnostic =
    TreeCloudSizeDiffers nat nat
  | TreeIndicesSizeDiffers nat nat
  | NormalsSizeDiffers nat nat

type_synonym Indices = "nat list"

record ('h, 'p) PointCloud =
  header :: 'h
  points :: "'p list"

text \<open>\<open>pcl::PointIndices\<close>: a header and the identifiers of the member points.\<close>

record 'h PointIndices =
  pi_header :: 'h
  indices :: Indices

text \<open>
  \<open>pcl::search::Search\<close>, the part this file calls. The tree has an input cloud.
  \<open>getIndices\<close> is a shared pointer that is null when the tree was built over a whole
  cloud. \<open>radiusSearch\<close> returns the number of neighbours found, an \<open>int\<close>, and fills
  the identifier vector (the distance vector is never read here).
\<close>

record ('h, 'p) Search =
  getInputCloud :: "('h, 'p) PointCloud"
  getIndices :: "Indices option"
  getSortedResults :: bool
  radiusSearch :: "nat \<Rightarrow> real \<Rightarrow> int \<times> Indices"

text \<open>
  The functor \<open>additional_filter_criteria (cloud, i, nn_indices, j)\<close>. It returns a
  \<open>bool\<close> in the source; a functor that indexes a vector, as the normal deviation
  filter below does, can run out of range, hence the \<open>fault\<close>.
\<close>

type_synonym ('h, 'p) Functor =
  "('h, 'p) PointCloud \<Rightarrow> nat \<Rightarrow> Indices \<Rightarrow> nat \<Rightarrow> fault + bool"

text \<open>
  The variables of the outer loop: the \<open>processed\<close> vector and the \<open>clusters\<close>
  vector. \<open>iterations\<close> is a ghost counter that no branch reads: it counts how often
  the body of the seed queue loop (line 107) has been entered.
\<close>

record 'h loop_state =
  processed :: "bool list"
  clusters :: "'h PointIndices list"
  iterations :: nat

subsection \<open>The growth loops\<close>

text \<open>
  Lines 116 to 125: the loop over the candidates \<open>nn_indices[j]\<close>, from \<open>j\<close> on.
  \<open>q\<close> is \<open>seed_queue.indices\<close>, \<open>i\<close> is \<open>it.getCurrentIndex()\<close>.
\<close>

function nn_loop ::
  "('h, 'p) Functor \<Rightarrow> ('h, 'p) PointCloud \<Rightarrow> nat \<Rightarrow> Indices \<Rightarrow> nat \<Rightarrow>
   Indices \<Rightarrow> bool list \<Rightarrow> fault + (Indices \<times> bool list)" where
  "nn_loop f cloud i nn_indices j q p =
     (if j < length nn_indices then
        if \<not> nn_indices ! j < length p then Inl OutOfRange
        else if p ! (nn_indices ! j) then nn_loop f cloud i nn_indices (Suc j) q p
        else (case f cloud i nn_indices j of
                Inl e \<Rightarrow> Inl e
              | Inr True \<Rightarrow>
                  nn_loop f cloud i nn_indices (Suc j)
                    (q @ [nn_indices ! j]) (p[nn_indices ! j := True])
              | Inr False \<Rightarrow> nn_loop f cloud i nn_indices (Suc j) q p)
      else Inr (q, p))"
  by pat_completeness auto
termination
  by (relation "measure (\<lambda>(f, cloud, i, nn_indices, j, q, p). length nn_indices - j)") auto

declare nn_loop.simps [simp del]

text \<open>The number of points not yet marked in the \<open>processed\<close> vector.\<close>

definition unprocessed :: "bool list \<Rightarrow> nat" where
  "unprocessed p = length (filter Not p)"

lemma unprocessed_mark:
  "k < length p \<Longrightarrow> \<not> p ! k \<Longrightarrow> Suc (unprocessed (p[k := True])) = unprocessed p"
proof (induction p arbitrary: k)
  case Nil
  then show ?case by simp
next
  case (Cons b p)
  then show ?case by (cases k) (auto simp: unprocessed_def)
qed

lemma nn_loop_balance:
  "nn_loop f cloud i nn j q p = Inr (q', p') \<Longrightarrow>
   length q' + unprocessed p' = length q + unprocessed p \<and> length q \<le> length q'"
proof (induction f cloud i nn j q p rule: nn_loop.induct)
  case (1 f cloud i nn j q p)
  show ?case
  proof (cases "j < length nn")
    case False
    with "1.prems" show ?thesis by (simp add: nn_loop.simps)
  next
    case True
    note j = True
    show ?thesis
    proof (cases "nn ! j < length p")
      case False
      with j "1.prems" show ?thesis by (simp add: nn_loop.simps)
    next
      case True
      note r = True
      show ?thesis
      proof (cases "p ! (nn ! j)")
        case True
        with j r "1.prems" "1.IH"(1) show ?thesis by (simp add: nn_loop.simps)
      next
        case False
        note u = False
        show ?thesis
        proof (cases "f cloud i nn j")
          case (Inl e)
          with j r u "1.prems" show ?thesis by (simp add: nn_loop.simps)
        next
          case (Inr b)
          show ?thesis
          proof (cases b)
            case True
            with Inr j r u "1.prems"
            have "nn_loop f cloud i nn (Suc j) (q @ [nn ! j]) (p[nn ! j := True]) = Inr (q', p')"
              by (simp add: nn_loop.simps)
            with "1.IH"(2) j r u Inr True
            have "length q' + unprocessed p' =
                    length (q @ [nn ! j]) + unprocessed (p[nn ! j := True])
                  \<and> length (q @ [nn ! j]) \<le> length q'"
              by simp
            with unprocessed_mark [OF r u] show ?thesis by simp
          next
            case False
            with Inr j r u "1.prems"
            have "nn_loop f cloud i nn (Suc j) q p = Inr (q', p')"
              by (simp add: nn_loop.simps)
            with "1.IH"(3) j r u Inr False show ?thesis by simp
          qed
        qed
      qed
    qed
  qed
qed

text \<open>
  Lines 107 to 126: the loop over the growing seed queue, from \<open>sq_idx\<close> on. A radius
  search that returns 0 takes the \<open>continue\<close> of line 114. \<open>n\<close> is the ghost counter.
\<close>

function sq_loop ::
  "('h, 'p) Functor \<Rightarrow> ('h, 'p) PointCloud \<Rightarrow> ('h, 'p) Search \<Rightarrow> real \<Rightarrow> nat \<Rightarrow> nat \<Rightarrow>
   nat \<Rightarrow> Indices \<Rightarrow> bool list \<Rightarrow> nat \<Rightarrow> fault + (Indices \<times> bool list \<times> nat)" where
  "sq_loop f cloud tree tolerance nn_start_idx i sq_idx q p n =
     (if sq_idx < length q then
        if fst (radiusSearch tree (q ! sq_idx) tolerance) = 0
        then sq_loop f cloud tree tolerance nn_start_idx i (Suc sq_idx) q p (Suc n)
        else (case nn_loop f cloud i (snd (radiusSearch tree (q ! sq_idx) tolerance))
                     nn_start_idx q p of
                Inl e \<Rightarrow> Inl e
              | Inr (q', p') \<Rightarrow>
                  sq_loop f cloud tree tolerance nn_start_idx i (Suc sq_idx) q' p' (Suc n))
      else Inr (q, p, n))"
  by pat_completeness auto
termination
proof (relation "measure (\<lambda>(f, cloud, tree, tolerance, nn_start_idx, i, sq_idx, q, p, n).
                    length q + unprocessed p - sq_idx)")
  show "wf (measure (\<lambda>(f, cloud, tree, tolerance, nn_start_idx, i, sq_idx, q, p, n).
                    length q + unprocessed p - sq_idx))"
    by simp
next
  fix f :: "('h, 'p) Functor" and cloud :: "('h, 'p) PointCloud"
    and tree :: "('h, 'p) Search" and tolerance :: real
    and nn_start_idx i sq_idx n :: nat and q :: Indices and p :: "bool list"
  assume "sq_idx < length q"
  then show "((f, cloud, tree, tolerance, nn_start_idx, i, Suc sq_idx, q, p, Suc n),
              (f, cloud, tree, tolerance, nn_start_idx, i, sq_idx, q, p, n))
             \<in> measure (\<lambda>(f, cloud, tree, tolerance, nn_start_idx, i, sq_idx, q, p, n).
                    length q + unprocessed p - sq_idx)"
    by simp
next
  fix f :: "('h, 'p) Functor" and cloud :: "('h, 'p) PointCloud"
    and tree :: "('h, 'p) Search" and tolerance :: real
    and nn_start_idx i sq_idx n :: nat and q q' :: Indices and p p' :: "bool list"
    and r :: "Indices \<times> bool list"
  assume lt: "sq_idx < length q"
    and res: "nn_loop f cloud i (snd (radiusSearch tree (q ! sq_idx) tolerance))
                nn_start_idx q p = Inr r"
    and r: "(q', p') = r"
  from res r nn_loop_balance [of f cloud i _ nn_start_idx q p q' p']
  have "length q' + unprocessed p' = length q + unprocessed p" by simp
  with lt show "((f, cloud, tree, tolerance, nn_start_idx, i, Suc sq_idx, q', p', Suc n),
              (f, cloud, tree, tolerance, nn_start_idx, i, sq_idx, q, p, n))
             \<in> measure (\<lambda>(f, cloud, tree, tolerance, nn_start_idx, i, sq_idx, q, p, n).
                    length q + unprocessed p - sq_idx)"
    by simp
qed

declare sq_loop.simps [simp del]

text \<open>
  Lines 98 to 132: the body of the outer loop for one value \<open>i\<close> of
  \<open>it.getCurrentIndex()\<close>. \<open>seed_queue\<close> is a reference to \<open>clusters.back()\<close>, which
  nothing else touches while it grows: the model grows it aside and then appends it with
  the cloud's header (line 130) or leaves \<open>clusters\<close> as it was (\<open>pop_back\<close>, line 132).
\<close>

definition seed_step ::
  "('h, 'p) Functor \<Rightarrow> ('h, 'p) PointCloud \<Rightarrow> ('h, 'p) Search \<Rightarrow> real \<Rightarrow> nat \<Rightarrow>
   nat \<Rightarrow> nat \<Rightarrow> nat \<Rightarrow> 'h loop_state \<Rightarrow> fault + 'h loop_state" where
  "seed_step f cloud tree tolerance nn_start_idx min_pts_per_cluster max_pts_per_cluster i s =
     (if \<not> i < length (processed s) then Inl OutOfRange
      else if processed s ! i then Inr s
      else (case sq_loop f cloud tree tolerance nn_start_idx i 0 [i]
                   ((processed s)[i := True]) (iterations s) of
              Inl e \<Rightarrow> Inl e
            | Inr (q, p, n) \<Rightarrow>
                Inr \<lparr>processed = p,
                     clusters =
                       (if min_pts_per_cluster \<le> length q \<and> length q \<le> max_pts_per_cluster
                        then clusters s @ [\<lparr>pi_header = header cloud, indices = q\<rparr>]
                        else clusters s),
                     iterations = n\<rparr>))"

text \<open>
  Line 97: the outer loop. The iterator is the list of the values that
  \<open>it.getCurrentIndex()\<close> takes while \<open>it.isValid()\<close>.
\<close>

fun it_loop ::
  "('h, 'p) Functor \<Rightarrow> ('h, 'p) PointCloud \<Rightarrow> ('h, 'p) Search \<Rightarrow> real \<Rightarrow> nat \<Rightarrow>
   nat \<Rightarrow> nat \<Rightarrow> nat list \<Rightarrow> 'h loop_state \<Rightarrow> fault + 'h loop_state" where
  "it_loop f cloud tree tolerance nn_start_idx mn mx [] s = Inr s"
| "it_loop f cloud tree tolerance nn_start_idx mn mx (i # it) s =
     (case seed_step f cloud tree tolerance nn_start_idx mn mx i s of
        Inl e \<Rightarrow> Inl e
      | Inr s' \<Rightarrow> it_loop f cloud tree tolerance nn_start_idx mn mx it s')"

subsection \<open>The overloads of extractEuclideanClusters\<close>

text \<open>The state in which line 97 is reached: nothing processed, the caller's clusters.\<close>

definition initial_state :: "('h, 'p) PointCloud \<Rightarrow> 'h PointIndices list \<Rightarrow> 'h loop_state" where
  "initial_state cloud cs =
     \<lparr>processed = replicate (length (points cloud)) False, clusters = cs, iterations = 0\<rparr>"

definition nn_start :: "('h, 'p) Search \<Rightarrow> nat" where
  "nn_start tree = (if getSortedResults tree then 1 else 0)"

text \<open>
  Lines 76 to 134, the overload that takes the iterator. The result is the diagnostics
  printed and the \<open>clusters\<close> vector after the call.
\<close>

definition extractEuclideanClusters_it ::
  "nat list \<Rightarrow> ('h, 'p) PointCloud \<Rightarrow> ('h, 'p) Functor \<Rightarrow> ('h, 'p) Search \<Rightarrow> real \<Rightarrow>
   'h PointIndices list \<Rightarrow> nat \<Rightarrow> nat \<Rightarrow> fault + (diagnostic list \<times> 'h PointIndices list)" where
  "extractEuclideanClusters_it it cloud additional_filter_criteria tree tolerance cs
       min_pts_per_cluster max_pts_per_cluster =
     (if length (points (getInputCloud tree)) \<noteq> length (points cloud)
      then Inr ([TreeCloudSizeDiffers (length (points (getInputCloud tree)))
                   (length (points cloud))], cs)
      else (case it_loop additional_filter_criteria cloud tree tolerance (nn_start tree)
                   min_pts_per_cluster max_pts_per_cluster it (initial_state cloud cs) of
              Inl e \<Rightarrow> Inl e
            | Inr s \<Rightarrow> Inr ([], clusters s)))"

text \<open>
  Modelled from the spec: the class \<open>ConstCloudIterator\<close> is declared outside this file.
  Over a whole cloud it visits the points in their natural order, and
  \<open>getCurrentIndex\<close> is the position in the cloud.
\<close>

definition ConstCloudIterator :: "('h, 'p) PointCloud \<Rightarrow> nat list" where
  "ConstCloudIterator cloud = [0 ..< length (points cloud)]"

text \<open>
  Modelled from the spec: over a subset, the identifiers the loop and the tree use are
  the positions in \<open>indices\<close> (the loop-local identifiers that the indexed normal filter
  translates through \<open>indices\<close>).
\<close>

definition ConstCloudIterator_indices :: "('h, 'p) PointCloud \<Rightarrow> Indices \<Rightarrow> nat list" where
  "ConstCloudIterator_indices cloud idx = [0 ..< length idx]"

text \<open>Lines 150 to 159, the overload over a whole cloud.\<close>

definition extractEuclideanClusters ::
  "('h, 'p) PointCloud \<Rightarrow> ('h, 'p) Functor \<Rightarrow> ('h, 'p) Search \<Rightarrow> real \<Rightarrow>
   'h PointIndices list \<Rightarrow> nat \<Rightarrow> nat \<Rightarrow> fault + (diagnostic list \<times> 'h PointIndices list)" where
  "extractEuclideanClusters cloud additional_filter_criteria tree tolerance cs
       min_pts_per_cluster max_pts_per_cluster =
     extractEuclideanClusters_it (ConstCloudIterator cloud) cloud additional_filter_criteria
       tree tolerance cs min_pts_per_cluster max_pts_per_cluster"

text \<open>Lines 176 to 193, the overload over a subset of the cloud.\<close>

definition extractEuclideanClusters_indices ::
  "('h, 'p) PointCloud \<Rightarrow> Indices \<Rightarrow> ('h, 'p) Functor \<Rightarrow> ('h, 'p) Search \<Rightarrow> real \<Rightarrow>
   'h PointIndices list \<Rightarrow> nat \<Rightarrow> nat \<Rightarrow> fault + (diagnostic list \<times> 'h PointIndices list)" where
  "extractEuclideanClusters_indices cloud idx additional_filter_criteria tree tolerance cs
       min_pts_per_cluster max_pts_per_cluster =
     (case getIndices tree of
        None \<Rightarrow> Inl NullPointer
      | Some tree_indices \<Rightarrow>
          if length tree_indices \<noteq> length idx
          then Inr ([TreeIndicesSizeDiffers (length tree_indices) (length idx)], cs)
          else extractEuclideanClusters_it (ConstCloudIterator_indices cloud idx) cloud
                 additional_filter_criteria tree tolerance cs
                 min_pts_per_cluster max_pts_per_cluster)"

subsection \<open>The normal deviation filter\<close>

text \<open>
  \<open>pcl::Normal\<close> through \<open>getNormalVector3fMap\<close>: three coordinates. \<open>float\<close> and
  \<open>double\<close> are the real numbers here, \<open>M_PI\<close> is \<open>pi\<close> and \<open>std::cos\<close> is \<open>cos\<close>.
  The model is exact arithmetic: the rounding of the single precision dot product and of
  the cosine, the infinities and NaN (which \<open>std::min (std::abs (max_angle), M_PI)\<close>
  hands on unchanged) are not in it. The statements below about the normal-angle
  overloads are made at inputs where exact and rounded arithmetic decide the comparison
  of line 262 alike: dot products of 0 and 1 against a cosine of one half, and any dot
  product against a cosine that is not positive.
\<close>

type_synonym Normal = "real \<times> real \<times> real"

fun dot :: "Normal \<Rightarrow> Normal \<Rightarrow> real" where
  "dot (x, y, z) (x', y', z') = x * x' + y * y' + z * z'"

text \<open>Lines 258 and 259 (and 300, 301).\<close>

definition clamp_max_angle :: "real \<Rightarrow> real" where
  "clamp_max_angle max_angle = min \<bar>max_angle\<bar> pi"

text \<open>Lines 260 to 263: the lambda of the overload over a whole cloud.\<close>

definition normal_deviation_filter ::
  "('g, Normal) PointCloud \<Rightarrow> real \<Rightarrow> ('h, 'p) Functor" where
  "normal_deviation_filter normals cos_max_angle cloud i nn_indices j =
     (if i < length (points normals) \<and> j < length nn_indices
         \<and> nn_indices ! j < length (points normals)
      then Inr (\<bar>dot (points normals ! i) (points normals ! (nn_indices ! j))\<bar>
                  < cos_max_angle)
      else Inl OutOfRange)"

text \<open>Lines 302 to 306: the lambda of the overload over a subset.\<close>

definition normal_deviation_filter_indices ::
  "('g, Normal) PointCloud \<Rightarrow> Indices \<Rightarrow> real \<Rightarrow> ('h, 'p) Functor" where
  "normal_deviation_filter_indices normals idx cos_max_angle cloud i nn_indices j =
     (if i < length idx \<and> idx ! i < length (points normals) \<and> j < length nn_indices
         \<and> nn_indices ! j < length idx \<and> idx ! (nn_indices ! j) < length (points normals)
      then Inr (\<bar>dot (points normals ! (idx ! i))
                      (points normals ! (idx ! (nn_indices ! j)))\<bar> < cos_max_angle)
      else Inl OutOfRange)"

text \<open>Lines 244 to 265.\<close>

definition extractEuclideanClusters_normals ::
  "('h, 'p) PointCloud \<Rightarrow> ('g, Normal) PointCloud \<Rightarrow> real \<Rightarrow> ('h, 'p) Search \<Rightarrow>
   'h PointIndices list \<Rightarrow> real \<Rightarrow> nat \<Rightarrow> nat \<Rightarrow>
   fault + (diagnostic list \<times> 'h PointIndices list)" where
  "extractEuclideanClusters_normals cloud normals tolerance tree cs max_angle
       min_pts_per_cluster max_pts_per_cluster =
     (if length (points cloud) \<noteq> length (points normals)
      then Inr ([NormalsSizeDiffers (length (points cloud)) (length (points normals))], cs)
      else extractEuclideanClusters cloud
             (normal_deviation_filter normals (cos (clamp_max_angle max_angle)))
             tree tolerance cs min_pts_per_cluster max_pts_per_cluster)"

text \<open>Lines 283 to 309.\<close>

definition extractEuclideanClusters_normals_indices ::
  "('h, 'p) PointCloud \<Rightarrow> ('g, Normal) PointCloud \<Rightarrow> Indices \<Rightarrow> ('h, 'p) Search \<Rightarrow> real \<Rightarrow>
   'h PointIndices list \<Rightarrow> real \<Rightarrow> nat \<Rightarrow> nat \<Rightarrow>
   fault + (diagnostic list \<times> 'h PointIndices list)" where
  "extractEuclideanClusters_normals_indices cloud normals idx tree tolerance cs max_angle
       min_pts_per_cluster max_pts_per_cluster =
     (if length (points cloud) \<noteq> length (points normals)
      then Inr ([NormalsSizeDiffers (length (points cloud)) (length (points normals))], cs)
      else if idx = [] then Inr ([], cs)
      else extractEuclideanClusters_indices cloud idx
             (normal_deviation_filter_indices normals idx (cos (clamp_max_angle max_angle)))
             tree tolerance cs min_pts_per_cluster max_pts_per_cluster)"

subsection \<open>Example inputs\<close>

text \<open>Two points one unit apart; each radius search finds both, the query point first.\<close>

definition cloud2 :: "(string, real \<times> real \<times> real) PointCloud" where
  "cloud2 = \<lparr>header = ''scan'', points = [(0, 0, 0), (1, 0, 0)]\<rparr>"

definition adjacent_tree :: "(string, real \<times> real \<times> real) Search" where
  "adjacent_tree =
     \<lparr>getInputCloud = cloud2, getIndices = None, getSortedResults = False,
      radiusSearch = (\<lambda>q r. if q = 0 then (2, [0, 1]) else (2, [1, 0]))\<rparr>"

text \<open>Normals at a right angle, and two equal normals.\<close>

definition normals_perpendicular :: "(string, Normal) PointCloud" where
  "normals_perpendicular = \<lparr>header = ''scan'', points = [(1, 0, 0), (0, 1, 0)]\<rparr>"

definition normals_equal :: "(string, Normal) PointCloud" where
  "normals_equal = \<lparr>header = ''scan'', points = [(1, 0, 0), (1, 0, 0)]\<rparr>"

definition normals1 :: "(string, Normal) PointCloud" where
  "normals1 = \<lparr>header = ''scan'', points = [(1, 0, 0)]\<rparr>"

text \<open>A functor that accepts every candidate (the plain Euclidean criterion).\<close>

definition accept_all :: "('h, 'p) Functor" where
  "accept_all cloud i nn_indices j = Inr True"

text \<open>
  Two points at the same place, in a tree that sorts by distance: both are at distance 0
  of either query, and the tree lists the other point first.
\<close>

definition coincident_cloud :: "(string, real \<times> real \<times> real) PointCloud" where
  "coincident_cloud = \<lparr>header = ''scan'', points = [(0, 0, 0), (0, 0, 0)]\<rparr>"

definition coincident_tree :: "(string, real \<times> real \<times> real) Search" where
  "coincident_tree =
     \<lparr>getInputCloud = coincident_cloud, getIndices = None, getSortedResults = True,
      radiusSearch = (\<lambda>q r. if q = 0 then (2, [1, 0]) else (2, [0, 1]))\<rparr>"

text \<open>A tree built over one point only, with a registered subset of one identifier.\<close>

definition small_tree :: "(string, real \<times> real \<times> real) Search" where
  "small_tree =
     \<lparr>getInputCloud = \<lparr>header = ''scan'', points = [(0, 0, 0)]\<rparr>, getIndices = Some [0],
      getSortedResults = False, radiusSearch = (\<lambda>q r. (1, [0]))\<rparr>"

text \<open>
  Four points in a row, each within the tolerance of the next. The search around point 0
  finds points 1 and 2, the search around point 1 fails, the search around point 2 finds
  point 3.
\<close>

definition cloud4 :: "(string, real \<times> real \<times> real) PointCloud" where
  "cloud4 = \<lparr>header = ''scan'', points = [(0, 0, 0), (1, 0, 0), (2, 0, 0), (3, 0, 0)]\<rparr>"

definition flaky_tree :: "(string, real \<times> real \<times> real) Search" where
  "flaky_tree =
     \<lparr>getInputCloud = cloud4, getIndices = None, getSortedResults = False,
      radiusSearch = (\<lambda>q r. if q = 0 then (3, [0, 1, 2]) else if q = 1 then (0, [])
                             else if q = 2 then (2, [2, 3]) else (1, [3]))\<rparr>"

text \<open>Three points: point 0 alone, points 1 and 2 within the tolerance of each other.\<close>

definition cloud3 :: "(string, real \<times> real \<times> real) PointCloud" where
  "cloud3 = \<lparr>header = ''scan'', points = [(0, 0, 0), (5, 0, 0), (6, 0, 0)]\<rparr>"

definition tree3 :: "(string, real \<times> real \<times> real) Search" where
  "tree3 =
     \<lparr>getInputCloud = cloud3, getIndices = None, getSortedResults = False,
      radiusSearch = (\<lambda>q r. if q = 0 then (1, [0]) else if q = 1 then (2, [1, 2])
                             else (2, [2, 1]))\<rparr>"

subsection \<open>Invariants of the loops\<close>

text \<open>
  \<open>marks p added p'\<close>: the vector \<open>p'\<close> is \<open>p\<close> with exactly the identifiers of
  \<open>added\<close> set, each of them in range, unset in \<open>p\<close> and listed once.
\<close>

definition marks :: "bool list \<Rightarrow> nat list \<Rightarrow> bool list \<Rightarrow> bool" where
  "marks p added p' \<longleftrightarrow>
     length p' = length p \<and> distinct added \<and>
     (\<forall>x \<in> set added. x < length p \<and> \<not> p ! x) \<and>
     (\<forall>k < length p. p' ! k = (p ! k \<or> k \<in> set added))"

text \<open>
  \<open>advances s new added s'\<close>: from \<open>s\<close> to \<open>s'\<close> the clusters \<open>new\<close> were appended,
  the identifiers \<open>added\<close> were queued and marked (those of \<open>new\<close> among them), and
  the queue loop ran once for each of them.
\<close>

definition advances :: "'h loop_state \<Rightarrow> 'h PointIndices list \<Rightarrow> Indices \<Rightarrow> 'h loop_state \<Rightarrow> bool" where
  "advances s new added s' \<longleftrightarrow>
     clusters s' = clusters s @ new \<and> marks (processed s) added (processed s') \<and>
     set (concat (map indices new)) \<subseteq> set added \<and> distinct (concat (map indices new)) \<and>
     iterations s' = iterations s + length added"

text \<open>\<open>queued q p\<close>: every member of the seed queue is in range and marked processed.\<close>

definition queued :: "Indices \<Rightarrow> bool list \<Rightarrow> bool" where
  "queued q p \<longleftrightarrow> (\<forall>x \<in> set q. x < length p \<and> p ! x)"

text \<open>The partition that a list of clusters stands for: the set of their member sets.\<close>

definition partition_of :: "'h PointIndices list \<Rightarrow> nat set set" where
  "partition_of cs = set (map (\<lambda>c. set (indices c)) cs)"

lemma marks_Nil: "marks p [] p"
  by (simp add: marks_def)

lemma marks_Cons:
  assumes x: "x < length p" "\<not> p ! x" and m: "marks (p[x := True]) added p'"
  shows "marks p (x # added) p'"
proof -
  from m have len: "length p' = length p" and d: "distinct added"
    and fresh: "\<forall>y \<in> set added. y < length p \<and> \<not> (p[x := True]) ! y"
    and val: "\<forall>k < length p. p' ! k = ((p[x := True]) ! k \<or> k \<in> set added)"
    by (simp_all add: marks_def)
  have notin: "x \<notin> set added"
  proof
    assume "x \<in> set added"
    with fresh x show False by auto
  qed
  have fresh': "\<forall>y \<in> set (x # added). y < length p \<and> \<not> p ! y"
  proof
    fix y assume "y \<in> set (x # added)"
    then consider "y = x" | "y \<in> set added" by auto
    then show "y < length p \<and> \<not> p ! y"
    proof cases
      case 1 with x show ?thesis by simp
    next
      case 2
      with fresh have "y < length p" "\<not> (p[x := True]) ! y" by auto
      moreover from this 2 notin have "y \<noteq> x" by auto
      ultimately show ?thesis by simp
    qed
  qed
  have val': "\<forall>k < length p. p' ! k = (p ! k \<or> k \<in> set (x # added))"
  proof (intro allI impI)
    fix k assume k: "k < length p"
    with val have "p' ! k = ((p[x := True]) ! k \<or> k \<in> set added)" by simp
    with k show "p' ! k = (p ! k \<or> k \<in> set (x # added))"
      by (cases "k = x") (simp_all add: nth_list_update)
  qed
  from len d notin fresh' val' show ?thesis by (simp add: marks_def)
qed

lemma nn_loop_marks:
  "nn_loop f cloud i nn j q p = Inr (q', p') \<Longrightarrow> \<exists>added. q' = q @ added \<and> marks p added p'"
proof (induction f cloud i nn j q p rule: nn_loop.induct)
  case (1 f cloud i nn j q p)
  show ?case
  proof (cases "j < length nn")
    case False
    with "1.prems" have "q' = q" "p' = p" by (simp_all add: nn_loop.simps)
    then show ?thesis by (simp add: marks_Nil)
  next
    case True
    note j = True
    show ?thesis
    proof (cases "nn ! j < length p")
      case False
      with j "1.prems" show ?thesis by (simp add: nn_loop.simps)
    next
      case True
      note r = True
      show ?thesis
      proof (cases "p ! (nn ! j)")
        case True
        with j r "1.prems" "1.IH"(1) show ?thesis by (simp add: nn_loop.simps)
      next
        case False
        note u = False
        show ?thesis
        proof (cases "f cloud i nn j")
          case (Inl e)
          with j r u "1.prems" show ?thesis by (simp add: nn_loop.simps)
        next
          case (Inr b)
          show ?thesis
          proof (cases b)
            case True
            with Inr j r u "1.prems"
            have "nn_loop f cloud i nn (Suc j) (q @ [nn ! j]) (p[nn ! j := True]) = Inr (q', p')"
              by (simp add: nn_loop.simps)
            with "1.IH"(2) j r u Inr True
            obtain added where a: "q' = (q @ [nn ! j]) @ added"
              and m: "marks (p[nn ! j := True]) added p'"
              by auto
            from marks_Cons [OF r u m] a show ?thesis by simp
          next
            case False
            with Inr j r u "1.prems"
            have "nn_loop f cloud i nn (Suc j) q p = Inr (q', p')"
              by (simp add: nn_loop.simps)
            with "1.IH"(3) j r u Inr False show ?thesis by simp
          qed
        qed
      qed
    qed
  qed
qed

lemma marks_trans:
  assumes a: "marks p a p'" and b: "marks p' b p''"
  shows "marks p (a @ b) p''"
proof -
  from a have la: "length p' = length p" and da: "distinct a"
    and fa: "\<forall>x \<in> set a. x < length p \<and> \<not> p ! x"
    and va: "\<forall>k < length p. p' ! k = (p ! k \<or> k \<in> set a)"
    by (simp_all add: marks_def)
  from b la have lb: "length p'' = length p" and db: "distinct b"
    and fb: "\<forall>x \<in> set b. x < length p \<and> \<not> p' ! x"
    and vb: "\<forall>k < length p. p'' ! k = (p' ! k \<or> k \<in> set b)"
    by (simp_all add: marks_def)
  have disj: "set a \<inter> set b = {}"
  proof (rule ccontr)
    assume "set a \<inter> set b \<noteq> {}"
    then obtain x where "x \<in> set a" "x \<in> set b" by auto
    with fa va fb show False by auto
  qed
  have f: "\<forall>x \<in> set (a @ b). x < length p \<and> \<not> p ! x"
    using fa fb va by auto
  have v: "\<forall>k < length p. p'' ! k = (p ! k \<or> k \<in> set (a @ b))"
    using va vb by auto
  from lb da db disj f v show ?thesis by (simp add: marks_def)
qed

lemma sq_loop_marks:
  "sq_loop f cloud tree tol ns i sq_idx q p n = Inr (q', p', n') \<Longrightarrow> sq_idx \<le> length q \<Longrightarrow>
   \<exists>added. q' = q @ added \<and> marks p added p' \<and> n' + sq_idx = n + length q'"
proof (induction f cloud tree tol ns i sq_idx q p n rule: sq_loop.induct)
  case (1 f cloud tree tol ns i sq_idx q p n)
  show ?case
  proof (cases "sq_idx < length q")
    case False
    with "1.prems" have "q' = q" "p' = p" "n' = n" "sq_idx = length q"
      by (simp_all add: sq_loop.simps)
    then show ?thesis by (simp add: marks_Nil)
  next
    case True
    note lt = True
    show ?thesis
    proof (cases "fst (radiusSearch tree (q ! sq_idx) tol) = 0")
      case True
      with lt "1.prems"
      have "sq_loop f cloud tree tol ns i (Suc sq_idx) q p (Suc n) = Inr (q', p', n')"
        by (simp add: sq_loop.simps)
      with "1.IH"(1) lt True show ?thesis by auto
    next
      case False
      note nz = False
      show ?thesis
      proof (cases "nn_loop f cloud i (snd (radiusSearch tree (q ! sq_idx) tol)) ns q p")
        case (Inl e)
        with lt nz "1.prems" show ?thesis by (simp add: sq_loop.simps)
      next
        case (Inr r)
        obtain q1 p1 where r: "r = (q1, p1)" by (cases r)
        from nn_loop_marks Inr r obtain a where a: "q1 = q @ a" "marks p a p1"
          by blast
        from lt nz Inr r "1.prems"
        have "sq_loop f cloud tree tol ns i (Suc sq_idx) q1 p1 (Suc n) = Inr (q', p', n')"
          by (simp add: sq_loop.simps)
        moreover from lt a have "Suc sq_idx \<le> length q1" by simp
        ultimately obtain b where b: "q' = q1 @ b" "marks p1 b p'"
          "n' + Suc sq_idx = Suc n + length q'"
          using "1.IH"(2) [OF lt nz Inr r [symmetric]] by blast
        from a b marks_trans [OF a(2) b(2)] show ?thesis by auto
      qed
    qed
  qed
qed

lemma advances_refl: "advances s [] [] s"
  by (simp add: advances_def marks_Nil)

lemma advances_trans:
  assumes a: "advances s new1 a s'" and b: "advances s' new2 b s''"
  shows "advances s (new1 @ new2) (a @ b) s''"
proof -
  from a b have m: "marks (processed s) (a @ b) (processed s'')"
    by (auto simp: advances_def intro: marks_trans)
  then have d: "distinct (a @ b)" by (simp add: marks_def)
  from a have sa: "set (concat (map indices new1)) \<subseteq> set a"
    and da: "distinct (concat (map indices new1))" by (simp_all add: advances_def)
  from b have sb: "set (concat (map indices new2)) \<subseteq> set b"
    and db: "distinct (concat (map indices new2))" by (simp_all add: advances_def)
  from d sa sb have "set (concat (map indices new1)) \<inter> set (concat (map indices new2)) = {}"
    by auto
  with da db have "distinct (concat (map indices (new1 @ new2)))" by simp
  moreover from sa sb have "set (concat (map indices (new1 @ new2))) \<subseteq> set (a @ b)" by auto
  moreover from a b have "clusters s'' = clusters s @ new1 @ new2"
    "iterations s'' = iterations s + length (a @ b)" by (simp_all add: advances_def)
  ultimately show ?thesis using m by (simp add: advances_def)
qed

lemma seed_grow_marks:
  assumes i: "i < length p" "\<not> p ! i"
    and g: "sq_loop f cloud tree tol ns i 0 [i] (p[i := True]) n = Inr (q, p', n')"
  shows "marks p q p' \<and> hd q = i \<and> q \<noteq> [] \<and> n' = n + length q"
proof -
  from sq_loop_marks [OF g] obtain a where a: "q = [i] @ a" "marks (p[i := True]) a p'"
    "n' + 0 = n + length q" by auto
  from marks_Cons [OF i a(2)] a show ?thesis by simp
qed

lemma seed_step_advances:
  assumes "seed_step f cloud tree tol ns mn mx i s = Inr s'"
  shows "\<exists>new added. advances s new added s'"
proof (cases "i < length (processed s) \<and> \<not> processed s ! i")
  case False
  with assms have "s' = s" by (auto simp: seed_step_def split: if_splits)
  with advances_refl show ?thesis by blast
next
  case True
  then have i: "i < length (processed s)" "\<not> processed s ! i" by simp_all
  from assms i obtain q p n where
    g: "sq_loop f cloud tree tol ns i 0 [i] ((processed s)[i := True]) (iterations s) = Inr (q, p, n)"
    and s': "s' = \<lparr>processed = p,
                   clusters = (if mn \<le> length q \<and> length q \<le> mx
                               then clusters s @ [\<lparr>pi_header = header cloud, indices = q\<rparr>]
                               else clusters s),
                   iterations = n\<rparr>"
    by (auto simp: seed_step_def split: sum.splits)
  from seed_grow_marks [OF i g] have m: "marks (processed s) q p" "n = iterations s + length q"
    by simp_all
  then have d: "distinct q" by (simp add: marks_def)
  show ?thesis
  proof (cases "mn \<le> length q \<and> length q \<le> mx")
    case True
    with s' m d have "advances s [\<lparr>pi_header = header cloud, indices = q\<rparr>] q s'"
      by (simp add: advances_def)
    then show ?thesis by blast
  next
    case False
    with s' m have "advances s [] q s'" by (simp add: advances_def)
    then show ?thesis by blast
  qed
qed

lemma it_loop_advances:
  "it_loop f cloud tree tol ns mn mx it s = Inr s' \<Longrightarrow> \<exists>new added. advances s new added s'"
proof (induction it arbitrary: s)
  case Nil
  then have "s' = s" by simp
  with advances_refl show ?case by blast
next
  case (Cons i it)
  from Cons.prems obtain s1 where
    1: "seed_step f cloud tree tol ns mn mx i s = Inr s1"
    and 2: "it_loop f cloud tree tol ns mn mx it s1 = Inr s'"
    by (auto split: sum.splits)
  from seed_step_advances [OF 1] obtain n1 a1 where "advances s n1 a1 s1" by blast
  moreover from Cons.IH [OF 2] obtain n2 a2 where "advances s1 n2 a2 s'" by blast
  ultimately show ?case using advances_trans by blast
qed

lemma marks_length:
  assumes "marks p added p'"
  shows "length added \<le> length p"
proof -
  from assms have d: "distinct added" and b: "set added \<subseteq> {..< length p}"
    by (auto simp: marks_def)
  from d have "length added = card (set added)" by (simp add: distinct_card)
  also from b have "\<dots> \<le> card {..< length p}" by (intro card_mono) simp_all
  finally show ?thesis by simp
qed

subsection \<open>A functor that accepts nothing\<close>

lemma nn_loop_rejecting:
  "nn_loop f cloud i nn j q p = Inr (q', p') \<Longrightarrow> \<forall>nn j. f cloud i nn j \<noteq> Inr True \<Longrightarrow>
   q' = q \<and> p' = p"
proof (induction f cloud i nn j q p rule: nn_loop.induct)
  case (1 f cloud i nn j q p)
  show ?case
  proof (cases "j < length nn \<and> nn ! j < length p")
    case False
    with "1.prems"(1) show ?thesis by (auto simp: nn_loop.simps split: if_splits)
  next
    case True
    then have j: "j < length nn" and r: "nn ! j < length p" by simp_all
    show ?thesis
    proof (cases "p ! (nn ! j)")
      case True
      with j r "1.prems" "1.IH"(1) show ?thesis by (simp add: nn_loop.simps)
    next
      case False
      note u = False
      show ?thesis
      proof (cases "f cloud i nn j")
        case (Inl e)
        with j r u "1.prems" show ?thesis by (simp add: nn_loop.simps)
      next
        case (Inr b)
        with "1.prems"(2) have b: "\<not> b" by auto
        with Inr j r u "1.prems"(1)
        have "nn_loop f cloud i nn (Suc j) q p = Inr (q', p')"
          by (simp add: nn_loop.simps)
        with "1.IH"(3) j r u Inr b "1.prems"(2) show ?thesis by simp
      qed
    qed
  qed
qed


lemma sq_loop_rejecting:
  "sq_loop f cloud tree tol ns i sq_idx q p n = Inr (q', p', n') \<Longrightarrow>
   \<forall>nn j. f cloud i nn j \<noteq> Inr True \<Longrightarrow> q' = q \<and> p' = p"
proof (induction f cloud tree tol ns i sq_idx q p n rule: sq_loop.induct)
  case (1 f cloud tree tol ns i sq_idx q p n)
  show ?case
  proof (cases "sq_idx < length q")
    case False
    with "1.prems"(1) show ?thesis by (simp add: sq_loop.simps)
  next
    case True
    note lt = True
    show ?thesis
    proof (cases "fst (radiusSearch tree (q ! sq_idx) tol) = 0")
      case True
      with lt "1.prems"(1)
      have "sq_loop f cloud tree tol ns i (Suc sq_idx) q p (Suc n) = Inr (q', p', n')"
        by (simp add: sq_loop.simps)
      with "1.IH"(1) lt True "1.prems"(2) show ?thesis by simp
    next
      case False
      note nz = False
      show ?thesis
      proof (cases "nn_loop f cloud i (snd (radiusSearch tree (q ! sq_idx) tol)) ns q p")
        case (Inl e)
        with lt nz "1.prems"(1) show ?thesis by (simp add: sq_loop.simps)
      next
        case (Inr r)
        obtain q1 p1 where r: "r = (q1, p1)" by (cases r)
        from nn_loop_rejecting Inr r "1.prems"(2) have same: "q1 = q" "p1 = p"
          by blast+
        from lt nz Inr r "1.prems"(1)
        have "sq_loop f cloud tree tol ns i (Suc sq_idx) q1 p1 (Suc n) = Inr (q', p', n')"
          by (simp add: sq_loop.simps)
        from "1.IH"(2) [OF lt nz Inr r [symmetric] this "1.prems"(2)] same
        show ?thesis by simp
      qed
    qed
  qed
qed

lemma seed_step_rejecting:
  assumes "seed_step f cloud tree tol ns mn mx i s = Inr s'"
    and never: "\<forall>i nn j. f cloud i nn j \<noteq> Inr True"
  shows "\<exists>new. clusters s' = clusters s @ new
           \<and> (\<forall>c \<in> set new. length (indices c) = 1 \<and> mn \<le> 1 \<and> 1 \<le> mx)"
proof (cases "i < length (processed s) \<and> \<not> processed s ! i")
  case False
  with assms(1) have "s' = s" by (auto simp: seed_step_def split: if_splits)
  then show ?thesis by simp
next
  case True
  with assms(1) obtain q p n where
    g: "sq_loop f cloud tree tol ns i 0 [i] ((processed s)[i := True]) (iterations s) = Inr (q, p, n)"
    and s': "clusters s' = (if mn \<le> length q \<and> length q \<le> mx
                               then clusters s @ [\<lparr>pi_header = header cloud, indices = q\<rparr>]
                               else clusters s)"
    by (auto simp: seed_step_def split: sum.splits)
  from sq_loop_rejecting [OF g] never have "q = [i]" by simp
  with s' show ?thesis by simp
qed

lemma it_loop_rejecting:
  "it_loop f cloud tree tol ns mn mx it s = Inr s' \<Longrightarrow>
   \<forall>i nn j. f cloud i nn j \<noteq> Inr True \<Longrightarrow>
   \<exists>new. clusters s' = clusters s @ new
      \<and> (\<forall>c \<in> set new. length (indices c) = 1 \<and> mn \<le> 1 \<and> 1 \<le> mx)"
proof (induction it arbitrary: s)
  case Nil
  then show ?case by simp
next
  case (Cons i it)
  from Cons.prems(1) obtain s1 where
    1: "seed_step f cloud tree tol ns mn mx i s = Inr s1"
    and 2: "it_loop f cloud tree tol ns mn mx it s1 = Inr s'"
    by (auto split: sum.splits)
  from seed_step_rejecting [OF 1 Cons.prems(2)] obtain n1 where
    n1: "clusters s1 = clusters s @ n1"
      "\<forall>c \<in> set n1. length (indices c) = 1 \<and> mn \<le> 1 \<and> 1 \<le> mx" by blast
  from Cons.IH [OF 2 Cons.prems(2)] obtain n2 where
    n2: "clusters s' = clusters s1 @ n2"
      "\<forall>c \<in> set n2. length (indices c) = 1 \<and> mn \<le> 1 \<and> 1 \<le> mx" by blast
  from n1 n2 have "clusters s' = clusters s @ (n1 @ n2)
      \<and> (\<forall>c \<in> set (n1 @ n2). length (indices c) = 1 \<and> mn \<le> 1 \<and> 1 \<le> mx)"
    by auto
  then show ?case by blast
qed

lemma extract_it_rejecting:
  assumes "extractEuclideanClusters_it it cloud f tree tol cs mn mx = Inr (d, cs')"
    and never: "\<forall>i nn j. f cloud i nn j \<noteq> Inr True"
  shows "\<exists>new. cs' = cs @ new
           \<and> (\<forall>c \<in> set new. length (indices c) = 1 \<and> mn \<le> 1 \<and> 1 \<le> mx)"
proof (cases "length (points (getInputCloud tree)) \<noteq> length (points cloud)")
  case True
  with assms(1) have "cs' = cs" by (simp add: extractEuclideanClusters_it_def)
  then show ?thesis by simp
next
  case False
  with assms(1) obtain s where
    l: "it_loop f cloud tree tol (nn_start tree) mn mx it (initial_state cloud cs) = Inr s"
    and c: "cs' = clusters s"
    by (auto simp: extractEuclideanClusters_it_def split: sum.splits)
  from it_loop_rejecting [OF l never] c show ?thesis by (simp add: initial_state_def)
qed

lemma cos_clamped_nonpos:
  assumes "pi / 2 \<le> clamp_max_angle max_angle"
  shows "cos (clamp_max_angle max_angle) \<le> 0"
proof -
  have "clamp_max_angle max_angle \<le> pi" by (simp add: clamp_max_angle_def)
  with assms have "cos (clamp_max_angle max_angle) \<le> cos (pi / 2)"
    by (intro cos_monotone_0_pi_le) simp_all
  then show ?thesis by simp
qed

subsection \<open>Running the model on the examples\<close>

lemmas run_simps =
  extractEuclideanClusters_normals_def extractEuclideanClusters_def
  extractEuclideanClusters_it_def ConstCloudIterator_def initial_state_def nn_start_def
  seed_step_def sq_loop.simps nn_loop.simps normal_deviation_filter_def clamp_max_angle_def

subsection \<open>What later growth can reach\<close>

lemma it_loop_append:
  "it_loop f cloud tree tol ns mn mx (xs @ ys) s =
     (case it_loop f cloud tree tol ns mn mx xs s of
        Inl e \<Rightarrow> Inl e
      | Inr s' \<Rightarrow> it_loop f cloud tree tol ns mn mx ys s')"
  by (induction xs arbitrary: s) (simp_all split: sum.splits)

lemma marks_marked: "marks p added p' \<Longrightarrow> x \<in> set added \<Longrightarrow> x < length p' \<and> p' ! x \<and> \<not> p ! x"
  by (auto simp: marks_def)

lemma advances_fresh:
  assumes "advances s new added s'" and "x \<in> set (concat (map indices new))"
  shows "x < length (processed s') \<and> processed s' ! x \<and> \<not> processed s ! x"
proof -
  from assms have "marks (processed s) added (processed s')" "x \<in> set added"
    by (auto simp: advances_def)
  then show ?thesis by (rule marks_marked)
qed

subsection \<open>Returning without a fault\<close>

lemma nn_loop_returns:
  "set nn \<subseteq> {..< length p} \<Longrightarrow> i < length p \<Longrightarrow>
   \<forall>j < length nn. \<exists>b. f cloud i nn j = Inr b \<Longrightarrow>
   \<exists>r. nn_loop f cloud i nn j q p = Inr r"
proof (induction f cloud i nn j q p rule: nn_loop.induct)
  case (1 f cloud i nn j q p)
  show ?case
  proof (cases "j < length nn")
    case False
    then show ?thesis by (simp add: nn_loop.simps)
  next
    case True
    note j = True
    with "1.prems"(1) have r: "nn ! j < length p" by (auto dest: nth_mem)
    show ?thesis
    proof (cases "p ! (nn ! j)")
      case True
      with j r "1.IH"(1) "1.prems" show ?thesis by (simp add: nn_loop.simps)
    next
      case False
      note u = False
      from "1.prems"(3) j obtain b where b: "f cloud i nn j = Inr b" by blast
      show ?thesis
      proof (cases b)
        case True
        with "1.IH"(2) j r u b "1.prems"
        have "\<exists>r. nn_loop f cloud i nn (Suc j) (q @ [nn ! j]) (p[nn ! j := True]) = Inr r"
          by simp
        with j r u b True show ?thesis by (simp add: nn_loop.simps)
      next
        case False
        with "1.IH"(3) j r u b "1.prems"
        have "\<exists>r. nn_loop f cloud i nn (Suc j) q p = Inr r" by simp
        with j r u b False show ?thesis by (simp add: nn_loop.simps)
      qed
    qed
  qed
qed

lemma sq_loop_returns:
  "\<forall>x. set (snd (radiusSearch tree x tol)) \<subseteq> {..< length p} \<Longrightarrow> i < length p \<Longrightarrow>
   \<forall>nn j. j < length nn \<longrightarrow> nn ! j < length p \<longrightarrow> (\<exists>b. f cloud i nn j = Inr b) \<Longrightarrow>
   \<exists>r. sq_loop f cloud tree tol ns i sq_idx q p n = Inr r"
proof (induction f cloud tree tol ns i sq_idx q p n rule: sq_loop.induct)
  case (1 f cloud tree tol ns i sq_idx q p n)
  show ?case
  proof (cases "sq_idx < length q")
    case False
    then show ?thesis by (simp add: sq_loop.simps)
  next
    case True
    note lt = True
    show ?thesis
    proof (cases "fst (radiusSearch tree (q ! sq_idx) tol) = 0")
      case True
      with lt "1.IH"(1) "1.prems" show ?thesis by (simp add: sq_loop.simps)
    next
      case False
      note nz = False
      let ?nn = "snd (radiusSearch tree (q ! sq_idx) tol)"
      from "1.prems"(1) have sub: "set ?nn \<subseteq> {..< length p}" by blast
      then have "\<forall>j < length ?nn. ?nn ! j < length p" by (auto dest: nth_mem)
      with "1.prems"(3) have tot: "\<forall>j < length ?nn. \<exists>b. f cloud i ?nn j = Inr b" by blast
      from sub "1.prems"(2) tot have "\<exists>r. nn_loop f cloud i ?nn ns q p = Inr r"
        by (rule nn_loop_returns)
      then obtain r where r: "nn_loop f cloud i ?nn ns q p = Inr r" by blast
      obtain q1 p1 where qp: "r = (q1, p1)" by (cases r)
      from nn_loop_marks r qp have "\<exists>a. marks p a p1" by blast
      then have len: "length p1 = length p" by (auto simp: marks_def)
      from "1.IH"(2) [OF lt nz r qp [symmetric]] "1.prems" len
      have "\<exists>r. sq_loop f cloud tree tol ns i (Suc sq_idx) q1 p1 (Suc n) = Inr r" by simp
      with lt nz r qp show ?thesis by (simp add: sq_loop.simps)
    qed
  qed
qed

lemma seed_step_returns:
  assumes "\<forall>x. set (snd (radiusSearch tree x tol)) \<subseteq> {..< length (processed s)}"
    and "i < length (processed s)"
    and "\<forall>i nn j. i < length (processed s) \<longrightarrow> j < length nn \<longrightarrow> nn ! j < length (processed s)
           \<longrightarrow> (\<exists>b. f cloud i nn j = Inr b)"
  shows "\<exists>s'. seed_step f cloud tree tol ns mn mx i s = Inr s'"
proof (cases "processed s ! i")
  case True
  with assms(2) show ?thesis by (simp add: seed_step_def)
next
  case False
  let ?p = "(processed s)[i := True]"
  from assms have "\<exists>r. sq_loop f cloud tree tol ns i 0 [i] ?p (iterations s) = Inr r"
    by (intro sq_loop_returns) simp_all
  then obtain q p n where
    "sq_loop f cloud tree tol ns i 0 [i] ?p (iterations s) = Inr (q, p, n)"
    by (metis prod_cases3)
  with False assms(2) show ?thesis by (simp add: seed_step_def)
qed

lemma advances_length: "advances s new added s' \<Longrightarrow> length (processed s') = length (processed s)"
  by (simp add: advances_def marks_def)

lemma it_loop_returns:
  "\<forall>x. set (snd (radiusSearch tree x tol)) \<subseteq> {..< length (processed s)} \<Longrightarrow>
   set it \<subseteq> {..< length (processed s)} \<Longrightarrow>
   \<forall>i nn j. i < length (processed s) \<longrightarrow> j < length nn \<longrightarrow> nn ! j < length (processed s)
           \<longrightarrow> (\<exists>b. f cloud i nn j = Inr b) \<Longrightarrow>
   \<exists>s'. it_loop f cloud tree tol ns mn mx it s = Inr s'"
proof (induction it arbitrary: s)
  case Nil
  then show ?case by simp
next
  case (Cons i it)
  from Cons.prems(2) have i: "i < length (processed s)" by simp
  from Cons.prems(1) i Cons.prems(3)
  have "\<exists>s'. seed_step f cloud tree tol ns mn mx i s = Inr s'"
    by (rule seed_step_returns)
  then obtain s1 where s1: "seed_step f cloud tree tol ns mn mx i s = Inr s1" by blast
  from seed_step_advances [OF s1] advances_length
  have len: "length (processed s1) = length (processed s)" by blast
  from Cons.prems len have "\<exists>s'. it_loop f cloud tree tol ns mn mx it s1 = Inr s'"
    by (intro Cons.IH) simp_all
  with s1 show ?case by simp
qed

lemma marks_count:
  assumes "marks (replicate k False) added p'"
  shows "length added = length (filter (\<lambda>b. b) p')"
proof -
  from assms have len: "length p' = k" and d: "distinct added"
    and b: "\<forall>x \<in> set added. x < k"
    and v: "\<forall>j < k. p' ! j = (j \<in> set added)"
    by (simp_all add: marks_def)
  have "{j. j < length p' \<and> p' ! j} = set added"
    using len b v by auto
  then have "length (filter (\<lambda>b. b) p') = card (set added)"
    by (simp add: length_filter_conv_card)
  with d show ?thesis by (simp add: distinct_card)
qed

subsection \<open>Skipping the first neighbour\<close>

lemma queued_grow:
  assumes "queued q p" and "marks p added p'"
  shows "queued (q @ added) p'"
  using assms by (auto simp: queued_def marks_def)

lemma nn_loop_skip_self:
  assumes "nn \<noteq> [] \<longrightarrow> nn ! 0 < length p \<and> p ! (nn ! 0)"
  shows "nn_loop f cloud i nn (Suc 0) q p = nn_loop f cloud i nn 0 q p"
proof (cases "nn = []")
  case True
  then show ?thesis by (simp add: nn_loop.simps)
next
  case False
  with assms have "0 < length nn" "nn ! 0 < length p" "p ! (nn ! 0)" by simp_all
  then show ?thesis by (subst (2) nn_loop.simps) simp
qed

lemma sq_loop_skip_self:
  "radiusSearch tree' = radiusSearch tree \<Longrightarrow> queued q p \<Longrightarrow>
   \<forall>x < length p. fst (radiusSearch tree x tol) \<noteq> 0 \<longrightarrow> snd (radiusSearch tree x tol) \<noteq> [] \<longrightarrow>
      snd (radiusSearch tree x tol) ! 0 = x \<Longrightarrow>
   sq_loop f cloud tree tol 0 i sq_idx q p n = sq_loop f cloud tree' tol (Suc 0) i sq_idx q p n"
proof (induction f cloud tree tol "0::nat" i sq_idx q p n rule: sq_loop.induct)
  case (1 f cloud tree tol i sq_idx q p n)
  show ?case
  proof (cases "sq_idx < length q")
    case False
    then show ?thesis by (simp add: sq_loop.simps)
  next
    case True
    note lt = True
    let ?r = "radiusSearch tree (q ! sq_idx) tol"
    from "1.prems"(1) have same: "radiusSearch tree' (q ! sq_idx) tol = ?r" by simp
    show ?thesis
    proof (cases "fst ?r = 0")
      case True
      with lt "1.hyps"(1) "1.prems" have
        "sq_loop f cloud tree tol 0 i (Suc sq_idx) q p (Suc n)
           = sq_loop f cloud tree' tol (Suc 0) i (Suc sq_idx) q p (Suc n)" by simp
      with lt True same show ?thesis
        by (simp add: sq_loop.simps [of _ _ _ _ _ _ sq_idx])
    next
      case False
      note nz = False
      from lt "1.prems"(2) have member: "q ! sq_idx < length p" "p ! (q ! sq_idx)"
        by (auto simp: queued_def)
      with "1.prems"(3) nz have "snd ?r \<noteq> [] \<longrightarrow> snd ?r ! 0 = q ! sq_idx" by simp
      with member have "snd ?r \<noteq> [] \<longrightarrow> snd ?r ! 0 < length p \<and> p ! (snd ?r ! 0)" by simp
      from nn_loop_skip_self [OF this]
      have skip: "nn_loop f cloud i (snd ?r) (Suc 0) q p = nn_loop f cloud i (snd ?r) 0 q p" .
      show ?thesis
      proof (cases "nn_loop f cloud i (snd ?r) 0 q p")
        case (Inl e)
        with lt nz same skip show ?thesis
          by (simp add: sq_loop.simps [of _ _ _ _ _ _ sq_idx])
      next
        case (Inr r)
        obtain q1 p1 where qp: "r = (q1, p1)" by (cases r)
        from nn_loop_marks Inr qp obtain a where a: "q1 = q @ a" "marks p a p1" by blast
        from queued_grow [OF "1.prems"(2) a(2)] a have q1: "queued q1 p1" by simp
        from a have len: "length p1 = length p" by (simp add: marks_def)
        from "1.hyps"(2) [OF lt nz Inr qp [symmetric] "1.prems"(1) q1] "1.prems"(3) len
        have "sq_loop f cloud tree tol 0 i (Suc sq_idx) q1 p1 (Suc n)
           = sq_loop f cloud tree' tol (Suc 0) i (Suc sq_idx) q1 p1 (Suc n)" by simp
        with lt nz same skip Inr qp show ?thesis
          by (simp add: sq_loop.simps [of _ _ _ _ _ _ sq_idx])
      qed
    qed
  qed
qed


lemma seed_step_skip_self:
  assumes same: "radiusSearch tree' = radiusSearch tree"
    and self: "\<forall>x < length (processed s). fst (radiusSearch tree x tol) \<noteq> 0 \<longrightarrow>
      snd (radiusSearch tree x tol) \<noteq> [] \<longrightarrow> snd (radiusSearch tree x tol) ! 0 = x"
  shows "seed_step f cloud tree tol 0 mn mx i s = seed_step f cloud tree' tol (Suc 0) mn mx i s"
proof (cases "i < length (processed s)")
  case False
  then show ?thesis by (simp add: seed_step_def)
next
  case True
  let ?p = "(processed s)[i := True]"
  from True have "queued [i] ?p" by (simp add: queued_def)
  moreover from self have "\<forall>x < length ?p. fst (radiusSearch tree x tol) \<noteq> 0 \<longrightarrow>
      snd (radiusSearch tree x tol) \<noteq> [] \<longrightarrow> snd (radiusSearch tree x tol) ! 0 = x" by simp
  ultimately have "sq_loop f cloud tree tol 0 i 0 [i] ?p (iterations s)
      = sq_loop f cloud tree' tol (Suc 0) i 0 [i] ?p (iterations s)"
    using same by (intro sq_loop_skip_self)
  then show ?thesis by (simp add: seed_step_def)
qed

lemma it_loop_skip_self:
  "radiusSearch tree' = radiusSearch tree \<Longrightarrow>
   \<forall>x < length (processed s). fst (radiusSearch tree x tol) \<noteq> 0 \<longrightarrow>
      snd (radiusSearch tree x tol) \<noteq> [] \<longrightarrow> snd (radiusSearch tree x tol) ! 0 = x \<Longrightarrow>
   it_loop f cloud tree tol 0 mn mx it s = it_loop f cloud tree' tol (Suc 0) mn mx it s"
proof (induction it arbitrary: s)
  case Nil
  then show ?case by simp
next
  case (Cons i it)
  from Cons.prems
  have step: "seed_step f cloud tree tol 0 mn mx i s = seed_step f cloud tree' tol (Suc 0) mn mx i s"
    by (rule seed_step_skip_self)
  show ?case
  proof (cases "seed_step f cloud tree tol 0 mn mx i s")
    case (Inl e)
    with step have "seed_step f cloud tree' tol (Suc 0) mn mx i s = Inl e" by simp
    with Inl show ?thesis by simp
  next
    case (Inr s1)
    from step Inr have other: "seed_step f cloud tree' tol (Suc 0) mn mx i s = Inr s1" by simp
    from seed_step_advances [OF Inr] advances_length
    have "length (processed s1) = length (processed s)" by blast
    with Cons.prems have "it_loop f cloud tree tol 0 mn mx it s1
        = it_loop f cloud tree' tol (Suc 0) mn mx it s1"
      by (intro Cons.IH) simp_all
    with other Inr show ?thesis by simp
  qed
qed

section \<open>The claims\<close>

text \<open>
  Claim C3. When the tree's input cloud has another size than the supplied cloud, the
  iterator overload (and the whole-cloud overload through it) prints the size diagnostic
  and returns the caller's clusters unchanged; so does the subset overload when the
  tree's registered indices have another size than the supplied indices. The result
  depends neither on the functor nor on any radius search: no point is processed.
\<close>

theorem size_mismatch_aborts:
  "(length (points (getInputCloud tree)) \<noteq> length (points cloud) \<longrightarrow>
      extractEuclideanClusters_it it cloud f tree tolerance cs mn mx
        = Inr ([TreeCloudSizeDiffers (length (points (getInputCloud tree)))
                  (length (points cloud))], cs)
      \<and> extractEuclideanClusters cloud f tree tolerance cs mn mx
        = Inr ([TreeCloudSizeDiffers (length (points (getInputCloud tree)))
                  (length (points cloud))], cs))
   \<and> (getIndices tree = Some tree_indices \<longrightarrow> length tree_indices \<noteq> length idx \<longrightarrow>
      extractEuclideanClusters_indices cloud idx f tree tolerance cs mn mx
        = Inr ([TreeIndicesSizeDiffers (length tree_indices) (length idx)], cs))"
  by (simp add: extractEuclideanClusters_it_def extractEuclideanClusters_def
      extractEuclideanClusters_indices_def)

theorem size_mismatch_aborts_witness:
  "extractEuclideanClusters_it [0, 1] cloud2 accept_all small_tree 1 [] 1 100
     = Inr ([TreeCloudSizeDiffers 1 2], [])
   \<and> extractEuclideanClusters cloud2 accept_all small_tree 1 [] 1 100
     = Inr ([TreeCloudSizeDiffers 1 2], [])
   \<and> extractEuclideanClusters_indices cloud2 [0, 1] accept_all small_tree 1 [] 1 100
     = Inr ([TreeIndicesSizeDiffers 1 2], [])"
  using size_mismatch_aborts [of small_tree cloud2 "[0, 1]" accept_all 1 "[]" 1 100 "[0]" "[0, 1]"]
  by (simp add: small_tree_def cloud2_def)

text \<open>
  Claim C8. Both normal-angle overloads compare the size of the cloud with the size of
  the normals first: on a mismatch they print the diagnostic and return the clusters
  unchanged. With matching sizes, the subset overload called with empty indices returns
  the clusters unchanged and prints nothing.
\<close>

theorem normals_preconditions:
  "(length (points cloud) \<noteq> length (points normals) \<longrightarrow>
      extractEuclideanClusters_normals cloud normals tolerance tree cs max_angle mn mx
        = Inr ([NormalsSizeDiffers (length (points cloud)) (length (points normals))], cs)
      \<and> extractEuclideanClusters_normals_indices cloud normals idx tree tolerance cs max_angle mn mx
        = Inr ([NormalsSizeDiffers (length (points cloud)) (length (points normals))], cs))
   \<and> (length (points cloud) = length (points normals) \<longrightarrow>
      extractEuclideanClusters_normals_indices cloud normals [] tree tolerance cs max_angle mn mx
        = Inr ([], cs))"
  by (simp add: extractEuclideanClusters_normals_def extractEuclideanClusters_normals_indices_def)

theorem normals_preconditions_witness:
  "extractEuclideanClusters_normals cloud2 normals1 1 adjacent_tree [] (pi / 3) 1 100
     = Inr ([NormalsSizeDiffers 2 1], [])
   \<and> extractEuclideanClusters_normals_indices cloud2 normals1 [0, 1] adjacent_tree 1 [] (pi / 3) 1 100
     = Inr ([NormalsSizeDiffers 2 1], [])
   \<and> extractEuclideanClusters_normals_indices cloud2 normals_equal [] adjacent_tree 1 [] (pi / 3) 1 100
     = Inr ([], [])"
  using normals_preconditions [of cloud2 normals1 1 adjacent_tree "[]" "pi / 3" 1 100 "[0, 1]"]
    normals_preconditions [of cloud2 normals_equal 1 adjacent_tree "[]" "pi / 3" 1 100 "[]"]
  by (simp add: cloud2_def normals1_def normals_equal_def)

text \<open>
  Claim C7. When the radius search around the queue member at \<open>sq_idx\<close> returns 0, the
  queue loop goes on with the next member, the queue and the processed vector as they
  were; and whatever the loop returns keeps the members queued so far as a prefix.
\<close>

theorem failed_search_skips_member:
  assumes "sq_idx < length q" and "fst (radiusSearch tree (q ! sq_idx) tolerance) = 0"
  shows "sq_loop f cloud tree tolerance ns i sq_idx q p n
           = sq_loop f cloud tree tolerance ns i (Suc sq_idx) q p (Suc n)
         \<and> (\<forall>q' p' n'. sq_loop f cloud tree tolerance ns i sq_idx q p n = Inr (q', p', n')
               \<longrightarrow> take (length q) q' = q)"
proof
  from assms show "sq_loop f cloud tree tolerance ns i sq_idx q p n
           = sq_loop f cloud tree tolerance ns i (Suc sq_idx) q p (Suc n)"
    by (subst sq_loop.simps) simp
next
  show "\<forall>q' p' n'. sq_loop f cloud tree tolerance ns i sq_idx q p n = Inr (q', p', n')
               \<longrightarrow> take (length q) q' = q"
  proof (intro allI impI)
    fix q' p' n'
    assume "sq_loop f cloud tree tolerance ns i sq_idx q p n = Inr (q', p', n')"
    from sq_loop_marks [OF this] assms(1) obtain added where "q' = q @ added" by auto
    then show "take (length q) q' = q" by simp
  qed
qed

theorem failed_search_skips_member_witness:
  "sq_loop accept_all cloud4 flaky_tree 1 0 0 1 [0, 1, 2] [True, True, True, False] 1
     = Inr ([0, 1, 2, 3], [True, True, True, True], 4)
   \<and> extractEuclideanClusters cloud4 accept_all flaky_tree 1 [] 1 100
     = Inr ([], [\<lparr>pi_header = ''scan'', indices = [0, 1, 2, 3]\<rparr>])"
proof -
  have h: "1 < length [0::nat, 1, 2]"
    "fst (radiusSearch flaky_tree ([0, 1, 2] ! 1) 1) = 0"
    by (simp_all add: flaky_tree_def)
  have "sq_loop accept_all cloud4 flaky_tree 1 0 0 (Suc 1) [0, 1, 2]
          [True, True, True, False] (Suc 1) = Inr ([0, 1, 2, 3], [True, True, True, True], 4)"
    by (simp add: flaky_tree_def accept_all_def sq_loop.simps nn_loop.simps)
  with failed_search_skips_member [OF h, of accept_all cloud4 0 0 "[True, True, True, False]" 1]
  have 1: "sq_loop accept_all cloud4 flaky_tree 1 0 0 1 [0, 1, 2] [True, True, True, False] 1
     = Inr ([0, 1, 2, 3], [True, True, True, True], 4)"
    by simp
  have 2: "extractEuclideanClusters cloud4 accept_all flaky_tree 1 [] 1 100
     = Inr ([], [\<lparr>pi_header = ''scan'', indices = [0, 1, 2, 3]\<rparr>])"
    by (simp add: run_simps cloud4_def flaky_tree_def accept_all_def upt_rec)
  from 1 2 show ?thesis by simp
qed

text \<open>
  Claim C1 states that two adjacent points with normals at a right angle stay apart for
  every \<open>max_angle\<close> below a right angle, and that the same points with equal normals
  merge for every positive \<open>max_angle\<close>. The code does the opposite: at \<open>max_angle\<close>
  \<open>pi / 3\<close> it puts the two points with perpendicular normals into one cluster and the
  two points with equal normals into two clusters.
\<close>

theorem normal_gating_inverted:
  "extractEuclideanClusters_normals cloud2 normals_perpendicular 1 adjacent_tree [] (pi / 3) 1 100
     = Inr ([], [\<lparr>pi_header = ''scan'', indices = [0, 1]\<rparr>])
   \<and> extractEuclideanClusters_normals cloud2 normals_equal 1 adjacent_tree [] (pi / 3) 1 100
     = Inr ([], [\<lparr>pi_header = ''scan'', indices = [0]\<rparr>, \<lparr>pi_header = ''scan'', indices = [1]\<rparr>])"
  by (simp add: run_simps adjacent_tree_def cloud2_def normals_perpendicular_def normals_equal_def
      upt_rec cos_60)

text \<open>
  Claim C9. When the clamped \<open>max_angle\<close> is at least \<open>pi / 2\<close>, the cosine is not
  positive, so neither normal deviation filter accepts any candidate; every cluster
  that a normal-angle overload appends then has exactly one point, and a cluster is
  appended only when \<open>min_pts_per_cluster \<le> 1 \<le> max_pts_per_cluster\<close>.
\<close>

theorem obtuse_angle_rejects_all:
  assumes "pi / 2 \<le> clamp_max_angle max_angle"
  shows "(\<forall>i nn j. normal_deviation_filter normals (cos (clamp_max_angle max_angle))
                      cloud i nn j \<noteq> Inr True)
       \<and> (\<forall>i nn j. normal_deviation_filter_indices normals idx (cos (clamp_max_angle max_angle))
                      cloud i nn j \<noteq> Inr True)
       \<and> (\<forall>d cs'. extractEuclideanClusters_normals cloud normals tolerance tree cs
                      max_angle mn mx = Inr (d, cs') \<longrightarrow>
            (\<exists>new. cs' = cs @ new
               \<and> (\<forall>c \<in> set new. length (indices c) = 1 \<and> mn \<le> 1 \<and> 1 \<le> mx)))
       \<and> (\<forall>d cs'. extractEuclideanClusters_normals_indices cloud normals idx tree tolerance cs
                      max_angle mn mx = Inr (d, cs') \<longrightarrow>
            (\<exists>new. cs' = cs @ new
               \<and> (\<forall>c \<in> set new. length (indices c) = 1 \<and> mn \<le> 1 \<and> 1 \<le> mx)))"
proof -
  let ?c = "cos (clamp_max_angle max_angle)"
  from cos_clamped_nonpos [OF assms] have c: "?c \<le> 0" .
  have a: "\<not> \<bar>x\<bar> < ?c" for x :: real using c by simp
  have f1: "\<forall>i nn j. normal_deviation_filter normals ?c cloud i nn j \<noteq> Inr True"
    by (simp add: normal_deviation_filter_def a)
  have f2: "\<forall>i nn j. normal_deviation_filter_indices normals idx ?c cloud i nn j \<noteq> Inr True"
    by (simp add: normal_deviation_filter_indices_def a)
  have e1: "\<exists>new. cs' = cs @ new
               \<and> (\<forall>c \<in> set new. length (indices c) = 1 \<and> mn \<le> 1 \<and> 1 \<le> mx)"
    if r: "extractEuclideanClusters_normals cloud normals tolerance tree cs
                      max_angle mn mx = Inr (d, cs')" for d cs'
  proof (cases "length (points cloud) \<noteq> length (points normals)")
    case True
    with r have "cs' = cs" by (simp add: extractEuclideanClusters_normals_def)
    then show ?thesis by simp
  next
    case False
    with r have "extractEuclideanClusters_it (ConstCloudIterator cloud) cloud
        (normal_deviation_filter normals ?c) tree tolerance cs mn mx = Inr (d, cs')"
      by (simp add: extractEuclideanClusters_normals_def extractEuclideanClusters_def)
    from extract_it_rejecting [OF this f1] show ?thesis .
  qed
  have e2: "\<exists>new. cs' = cs @ new
               \<and> (\<forall>c \<in> set new. length (indices c) = 1 \<and> mn \<le> 1 \<and> 1 \<le> mx)"
    if r: "extractEuclideanClusters_normals_indices cloud normals idx tree tolerance cs
                      max_angle mn mx = Inr (d, cs')" for d cs'
  proof (cases "length (points cloud) \<noteq> length (points normals) \<or> idx = []")
    case True
    with r have "cs' = cs"
      by (auto simp: extractEuclideanClusters_normals_indices_def split: if_splits)
    then show ?thesis by simp
  next
    case False
    with r have r': "extractEuclideanClusters_indices cloud idx
        (normal_deviation_filter_indices normals idx ?c) tree tolerance cs mn mx = Inr (d, cs')"
      by (simp add: extractEuclideanClusters_normals_indices_def)
    show ?thesis
    proof (cases "getIndices tree")
      case None
      with r' show ?thesis by (simp add: extractEuclideanClusters_indices_def)
    next
      case (Some ti)
      show ?thesis
      proof (cases "length ti \<noteq> length idx")
        case True
        with Some r' have "cs' = cs" by (simp add: extractEuclideanClusters_indices_def)
        then show ?thesis by simp
      next
        case False
        with Some r' have "extractEuclideanClusters_it (ConstCloudIterator_indices cloud idx)
            cloud (normal_deviation_filter_indices normals idx ?c) tree tolerance cs mn mx
              = Inr (d, cs')"
          by (simp add: extractEuclideanClusters_indices_def)
        from extract_it_rejecting [OF this f2] show ?thesis .
      qed
    qed
  qed
  from f1 f2 e1 e2 show ?thesis by blast
qed

theorem obtuse_angle_rejects_all_witness:
  "pi / 2 \<le> clamp_max_angle (pi / 2)
   \<and> normal_deviation_filter normals_perpendicular (cos (clamp_max_angle (pi / 2)))
        cloud2 0 [0, 1] 1 \<noteq> Inr True
   \<and> extractEuclideanClusters_normals cloud2 normals_perpendicular 1 adjacent_tree [] (pi / 2) 1 100
     = Inr ([], [\<lparr>pi_header = ''scan'', indices = [0]\<rparr>, \<lparr>pi_header = ''scan'', indices = [1]\<rparr>])"
proof -
  have h: "pi / 2 \<le> clamp_max_angle (pi / 2)" by (simp add: clamp_max_angle_def)
  from obtuse_angle_rejects_all [OF h, of normals_perpendicular cloud2]
  have 1: "normal_deviation_filter normals_perpendicular (cos (clamp_max_angle (pi / 2)))
        cloud2 0 [0, 1] 1 \<noteq> Inr True" by blast
  have 2: "extractEuclideanClusters_normals cloud2 normals_perpendicular 1 adjacent_tree [] (pi / 2) 1 100
     = Inr ([], [\<lparr>pi_header = ''scan'', indices = [0]\<rparr>, \<lparr>pi_header = ''scan'', indices = [1]\<rparr>])"
    by (simp add: run_simps adjacent_tree_def cloud2_def normals_perpendicular_def upt_rec)
  from h 1 2 show ?thesis by simp
qed

text \<open>
  Claim C4. For a seed \<open>i\<close> not yet processed whose queue loop ends with the queue
  \<open>q\<close>: the outer loop body appends \<open>q\<close> with the cloud's header exactly when
  \<open>min_pts_per_cluster \<le> length q \<le> max_pts_per_cluster\<close> and otherwise leaves the
  clusters as they were; either way every member of \<open>q\<close> is marked processed, and no
  cluster appended for a later seed of the same call contains a member of \<open>q\<close>.
\<close>

theorem size_bounds_keep_or_discard:
  assumes i: "i < length (processed s)" "\<not> processed s ! i"
    and g: "sq_loop f cloud tree tolerance ns i 0 [i] ((processed s)[i := True]) (iterations s)
              = Inr (q, p, n)"
  shows "seed_step f cloud tree tolerance ns mn mx i s
           = Inr \<lparr>processed = p,
                  clusters = (if mn \<le> length q \<and> length q \<le> mx
                              then clusters s @ [\<lparr>pi_header = header cloud, indices = q\<rparr>]
                              else clusters s),
                  iterations = n\<rparr>
         \<and> (\<forall>x \<in> set q. x < length p \<and> p ! x)
         \<and> (\<forall>rest s1 s'. seed_step f cloud tree tolerance ns mn mx i s = Inr s1 \<longrightarrow>
               it_loop f cloud tree tolerance ns mn mx rest s1 = Inr s' \<longrightarrow>
               (\<exists>later. clusters s' = clusters s1 @ later
                  \<and> set q \<inter> set (concat (map indices later)) = {}))"
proof -
  let ?s1 = "\<lparr>processed = p,
                  clusters = (if mn \<le> length q \<and> length q \<le> mx
                              then clusters s @ [\<lparr>pi_header = header cloud, indices = q\<rparr>]
                              else clusters s),
                  iterations = n\<rparr>"
  from i g have step: "seed_step f cloud tree tolerance ns mn mx i s = Inr ?s1"
    by (simp add: seed_step_def)
  from seed_grow_marks [OF i g] have m: "marks (processed s) q p" by simp
  then have marked: "\<forall>x \<in> set q. x < length p \<and> p ! x"
    by (auto dest: marks_marked)
  have later: "\<exists>later. clusters s' = clusters s1 @ later
                  \<and> set q \<inter> set (concat (map indices later)) = {}"
    if s1: "seed_step f cloud tree tolerance ns mn mx i s = Inr s1"
      and l: "it_loop f cloud tree tolerance ns mn mx rest s1 = Inr s'" for rest s1 s'
  proof -
    from s1 step have "s1 = ?s1" by simp
    then have p1: "processed s1 = p" by simp
    from it_loop_advances [OF l] obtain new added where a: "advances s1 new added s'" by blast
    have "set q \<inter> set (concat (map indices new)) = {}"
    proof (rule ccontr)
      assume "set q \<inter> set (concat (map indices new)) \<noteq> {}"
      then obtain x where x: "x \<in> set q" "x \<in> set (concat (map indices new))" by auto
      from advances_fresh [OF a x(2)] p1 have "\<not> p ! x" by simp
      with marked x(1) show False by simp
    qed
    moreover from a have "clusters s' = clusters s1 @ new" by (simp add: advances_def)
    ultimately show ?thesis by blast
  qed
  from step marked later show ?thesis by blast
qed

theorem size_bounds_keep_or_discard_witness:
  "seed_step accept_all cloud3 tree3 1 0 2 100 0 (initial_state cloud3 [])
     = Inr \<lparr>processed = [True, False, False], clusters = [], iterations = 1\<rparr>
   \<and> seed_step accept_all cloud3 tree3 1 0 1 100 0 (initial_state cloud3 [])
     = Inr \<lparr>processed = [True, False, False],
            clusters = [\<lparr>pi_header = ''scan'', indices = [0]\<rparr>], iterations = 1\<rparr>"
proof -
  have i: "0 < length (processed (initial_state cloud3 []))"
    "\<not> processed (initial_state cloud3 []) ! 0"
    by (simp_all add: initial_state_def cloud3_def)
  have g: "sq_loop accept_all cloud3 tree3 1 0 0 0 [0]
             ((processed (initial_state cloud3 []))[0 := True])
             (iterations (initial_state cloud3 [])) = Inr ([0], [True, False, False], 1)"
    by (simp add: initial_state_def cloud3_def tree3_def sq_loop.simps nn_loop.simps)
  from size_bounds_keep_or_discard [OF i g, of 2 100]
    size_bounds_keep_or_discard [OF i g, of 1 100]
  show ?thesis by (simp add: initial_state_def cloud3_def)
qed

text \<open>
  Claim C2. The clusters appended by one call have no point identifier in common (nor
  one twice within a cluster); and when a seed's queue \<open>q\<close> is discarded for its size,
  at whatever place \<open>pre @ i # post\<close> of the iteration, no appended cluster contains a
  member of \<open>q\<close>.
\<close>

theorem clusters_disjoint:
  assumes "extractEuclideanClusters_it it cloud f tree tolerance cs mn mx = Inr (d, cs')"
  shows "\<exists>new. cs' = cs @ new \<and> distinct (concat (map indices new))
           \<and> (\<forall>pre i post s q p n.
                 it = pre @ i # post \<longrightarrow>
                 it_loop f cloud tree tolerance (nn_start tree) mn mx pre (initial_state cloud cs)
                   = Inr s \<longrightarrow>
                 i < length (processed s) \<longrightarrow> \<not> processed s ! i \<longrightarrow>
                 sq_loop f cloud tree tolerance (nn_start tree) i 0 [i]
                   ((processed s)[i := True]) (iterations s) = Inr (q, p, n) \<longrightarrow>
                 \<not> (mn \<le> length q \<and> length q \<le> mx) \<longrightarrow>
                 set q \<inter> set (concat (map indices new)) = {})"
proof (cases "length (points (getInputCloud tree)) \<noteq> length (points cloud)")
  case True
  with assms have "cs' = cs @ []" by (simp add: extractEuclideanClusters_it_def)
  then show ?thesis by (intro exI [of _ "[]"]) simp
next
  case False
  let ?loop = "it_loop f cloud tree tolerance (nn_start tree) mn mx"
  let ?s0 = "initial_state cloud cs"
  from False assms obtain sf where
    l: "?loop it ?s0 = Inr sf" and c: "cs' = clusters sf"
    by (auto simp: extractEuclideanClusters_it_def split: sum.splits)
  from it_loop_advances [OF l] obtain new added where a: "advances ?s0 new added sf" by blast
  then have new: "cs' = cs @ new" "distinct (concat (map indices new))"
    using c by (simp_all add: advances_def initial_state_def)
  have disc: "set q \<inter> set (concat (map indices new)) = {}"
    if it: "it = pre @ i # post" and pre: "?loop pre ?s0 = Inr s"
      and i: "i < length (processed s)" "\<not> processed s ! i"
      and g: "sq_loop f cloud tree tolerance (nn_start tree) i 0 [i]
                   ((processed s)[i := True]) (iterations s) = Inr (q, p, n)"
      and out: "\<not> (mn \<le> length q \<and> length q \<le> mx)" for pre i post s q p n
  proof -
    let ?s1 = "\<lparr>processed = p, clusters = clusters s, iterations = n\<rparr>"
    from i g out have step: "seed_step f cloud tree tolerance (nn_start tree) mn mx i s = Inr ?s1"
      by (simp add: seed_step_def)
    from l it have "?loop (pre @ (i # post)) ?s0 = Inr sf" by simp
    with pre step have post: "?loop post ?s1 = Inr sf"
      by (simp add: it_loop_append)
    from it_loop_advances [OF pre] obtain n1 a1 where a1: "advances ?s0 n1 a1 s" by blast
    from it_loop_advances [OF post] obtain n2 a2 where a2: "advances ?s1 n2 a2 sf" by blast
    from a1 a2 a have "cs @ new = (cs @ n1) @ n2"
      by (simp add: advances_def initial_state_def)
    then have split: "new = n1 @ n2" by simp
    from seed_grow_marks [OF i g] have m: "marks (processed s) q p" by simp
    show ?thesis
    proof (rule ccontr)
      assume "set q \<inter> set (concat (map indices new)) \<noteq> {}"
      then obtain x where x: "x \<in> set q" "x \<in> set (concat (map indices new))" by auto
      from marks_marked [OF m x(1)] have mx: "p ! x" "\<not> processed s ! x" by simp_all
      from x(2) split consider "x \<in> set (concat (map indices n1))"
        | "x \<in> set (concat (map indices n2))" by auto
      then show False
      proof cases
        case 1
        from advances_fresh [OF a1 1] mx show False by simp
      next
        case 2
        from advances_fresh [OF a2 2] mx show False by simp
      qed
    qed
  qed
  from new disc show ?thesis by blast
qed


theorem clusters_disjoint_witness:
  "extractEuclideanClusters_it [0, 1, 2] cloud3 accept_all tree3 1 [] 2 100
     = Inr ([], [\<lparr>pi_header = ''scan'', indices = [1, 2]\<rparr>])
   \<and> (\<exists>new. [\<lparr>pi_header = ''scan'', indices = [1, 2]\<rparr>] = [] @ new
         \<and> distinct (concat (map indices new))
         \<and> set [0] \<inter> set (concat (map indices new)) = {})"
proof -
  have e: "extractEuclideanClusters_it [0, 1, 2] cloud3 accept_all tree3 1 [] 2 100
     = Inr ([], [\<lparr>pi_header = ''scan'', indices = [1, 2]\<rparr>])"
    by (simp add: run_simps cloud3_def tree3_def accept_all_def)
  from clusters_disjoint [OF e] obtain new where
    n: "[\<lparr>pi_header = ''scan'', indices = [1, 2]\<rparr>] = [] @ new"
      "distinct (concat (map indices new))"
    and d: "\<forall>pre i post s q p n.
                 [0, 1, 2] = pre @ i # post \<longrightarrow>
                 it_loop accept_all cloud3 tree3 1 (nn_start tree3) 2 100 pre
                     (initial_state cloud3 []) = Inr s \<longrightarrow>
                 i < length (processed s) \<longrightarrow> \<not> processed s ! i \<longrightarrow>
                 sq_loop accept_all cloud3 tree3 1 (nn_start tree3) i 0 [i]
                   ((processed s)[i := True]) (iterations s) = Inr (q, p, n) \<longrightarrow>
                 \<not> (2 \<le> length q \<and> length q \<le> 100) \<longrightarrow>
                 set q \<inter> set (concat (map indices new)) = {}"
    by blast
  have g: "sq_loop accept_all cloud3 tree3 1 (nn_start tree3) 0 0 [0]
             ((processed (initial_state cloud3 []))[0 := True])
             (iterations (initial_state cloud3 [])) = Inr ([0], [True, False, False], 1)"
    by (simp add: initial_state_def cloud3_def tree3_def nn_start_def sq_loop.simps
        nn_loop.simps)
  from d [rule_format, of "[]" 0 "[1, 2]" "initial_state cloud3 []" "[0]"
      "[True, False, False]" 1] g
  have "set [0] \<inter> set (concat (map indices new)) = {}"
    by (simp add: initial_state_def cloud3_def)
  with e n show ?thesis by blast
qed

text \<open>
  Claim C10. The loops are total functions: the candidate loop counts \<open>j\<close> up to the
  length of the result list, and the queue loop decreases the number of queued members
  not yet expanded plus the number of points not yet marked, because a point is queued
  only when unmarked and is marked in the same step: what the queue loop appends is a
  list without repetition of points that were in range and unmarked before and are
  marked after, and it enters its body once per member from \<open>sq_idx\<close> on. Counting from
  a fresh processed vector, the body of the queue loop is entered once for each point marked at the end,
  hence at most once per point of the cloud. When every identifier the tree returns and
  every identifier the iterator yields is below the cloud size and the functor answers
  on such identifiers, the call returns without a fault.
\<close>

theorem queue_iterations_bounded:
  "(\<forall>i sq_idx q p n q' p' n'. sq_idx \<le> length q \<longrightarrow>
        sq_loop f cloud tree tolerance ns i sq_idx q p n = Inr (q', p', n') \<longrightarrow>
        (\<exists>added. q' = q @ added \<and> distinct added
           \<and> (\<forall>x \<in> set added. x < length p \<and> \<not> p ! x \<and> p' ! x)
           \<and> n' + sq_idx = n + length q'))
   \<and> (\<forall>s. it_loop f cloud tree tolerance ns mn mx it (initial_state cloud cs) = Inr s \<longrightarrow>
        iterations s \<le> length (points cloud)
        \<and> iterations s = length (filter (\<lambda>b. b) (processed s)))
   \<and> ((\<forall>x. set (snd (radiusSearch tree x tolerance)) \<subseteq> {..< length (points cloud)}) \<longrightarrow>
       set it \<subseteq> {..< length (points cloud)} \<longrightarrow>
       (\<forall>i nn j. i < length (points cloud) \<longrightarrow> j < length nn \<longrightarrow>
                  nn ! j < length (points cloud) \<longrightarrow> (\<exists>b. f cloud i nn j = Inr b)) \<longrightarrow>
       (\<exists>s. it_loop f cloud tree tolerance ns mn mx it (initial_state cloud cs) = Inr s)
       \<and> (\<exists>d cs'. extractEuclideanClusters_it it cloud f tree tolerance cs mn mx = Inr (d, cs')))"
proof (intro conjI allI impI)
  fix i sq_idx q p n q' p' n'
  assume "sq_idx \<le> length q"
    and "sq_loop f cloud tree tolerance ns i sq_idx q p n = Inr (q', p', n')"
  with sq_loop_marks obtain added where
    a: "q' = q @ added" "marks p added p'" "n' + sq_idx = n + length q'" by blast
  from a(2) have "distinct added" by (simp add: marks_def)
  moreover from a(2) have "\<forall>x \<in> set added. x < length p \<and> \<not> p ! x \<and> p' ! x"
    by (auto simp: marks_def)
  ultimately show "\<exists>added. q' = q @ added \<and> distinct added
           \<and> (\<forall>x \<in> set added. x < length p \<and> \<not> p ! x \<and> p' ! x)
           \<and> n' + sq_idx = n + length q'"
    using a(1,3) by blast
next
  fix s
  assume l: "it_loop f cloud tree tolerance ns mn mx it (initial_state cloud cs) = Inr s"
  from it_loop_advances [OF l] obtain new added where
    a: "advances (initial_state cloud cs) new added s" by blast
  then have m: "marks (replicate (length (points cloud)) False) added (processed s)"
    and n: "iterations s = length added"
    by (simp_all add: advances_def initial_state_def)
  from marks_length [OF m] n show "iterations s \<le> length (points cloud)" by simp
  from marks_count [OF m] n show "iterations s = length (filter (\<lambda>b. b) (processed s))" by simp
next
  assume wf: "\<forall>x. set (snd (radiusSearch tree x tolerance)) \<subseteq> {..< length (points cloud)}"
    "set it \<subseteq> {..< length (points cloud)}"
    "\<forall>i nn j. i < length (points cloud) \<longrightarrow> j < length nn \<longrightarrow>
                  nn ! j < length (points cloud) \<longrightarrow> (\<exists>b. f cloud i nn j = Inr b)"
  have len: "length (processed (initial_state cloud cs)) = length (points cloud)"
    by (simp add: initial_state_def)
  from wf len show "\<exists>s. it_loop f cloud tree tolerance ns mn mx it (initial_state cloud cs) = Inr s"
    by (intro it_loop_returns) simp_all
  from wf len
  have "\<exists>s. it_loop f cloud tree tolerance (nn_start tree) mn mx it (initial_state cloud cs) = Inr s"
    by (intro it_loop_returns) simp_all
  then show "\<exists>d cs'. extractEuclideanClusters_it it cloud f tree tolerance cs mn mx = Inr (d, cs')"
    by (auto simp: extractEuclideanClusters_it_def)
qed


theorem queue_iterations_bounded_witness:
  "it_loop accept_all cloud3 tree3 1 0 1 100 [0, 1, 2] (initial_state cloud3 [])
     = Inr \<lparr>processed = [True, True, True],
            clusters = [\<lparr>pi_header = ''scan'', indices = [0]\<rparr>,
                        \<lparr>pi_header = ''scan'', indices = [1, 2]\<rparr>],
            iterations = 3\<rparr>
   \<and> (3::nat) \<le> length (points cloud3)
   \<and> (\<exists>d cs'. extractEuclideanClusters_it [0, 1, 2] cloud3 accept_all tree3 1 [] 1 100
                  = Inr (d, cs'))"
proof -
  let ?s = "\<lparr>processed = [True, True, True],
            clusters = [\<lparr>pi_header = ''scan'', indices = [0]\<rparr>,
                        \<lparr>pi_header = ''scan'', indices = [1, 2]\<rparr>],
            iterations = 3\<rparr>"
  note inst = queue_iterations_bounded
    [of accept_all cloud3 tree3 1 0 1 100 "[0, 1, 2]" "[]"]
  have e: "it_loop accept_all cloud3 tree3 1 0 1 100 [0, 1, 2] (initial_state cloud3 []) = Inr ?s"
    by (simp add: run_simps cloud3_def tree3_def accept_all_def)
  from inst e have "iterations ?s \<le> length (points cloud3)" by blast
  then have b: "(3::nat) \<le> length (points cloud3)" by simp
  have w1: "\<forall>x. set (snd (radiusSearch tree3 x 1)) \<subseteq> {..< length (points cloud3)}"
    by (simp add: tree3_def cloud3_def)
  have w2: "set [0, 1, 2] \<subseteq> {..< length (points cloud3)}"
    by (simp add: cloud3_def)
  have w3: "\<forall>i nn j. i < length (points cloud3) \<longrightarrow> j < length nn \<longrightarrow>
                  nn ! j < length (points cloud3) \<longrightarrow> (\<exists>b. accept_all cloud3 i nn j = Inr b)"
    by (auto simp: accept_all_def)
  from inst w1 w2 w3
  have r: "\<exists>d cs'. extractEuclideanClusters_it [0, 1, 2] cloud3 accept_all tree3 1 [] 1 100
                  = Inr (d, cs')" by blast
  from e b r show ?thesis by blast
qed

text \<open>
  Claim C6 states that skipping the first neighbour (a tree that reports sorted results)
  and not skipping it give the same partition for every cloud. It fails for two points
  at the same place, where the sorting tree lists the other point first: skipping then
  drops the only candidate, and the two points end up in two clusters instead of one.
\<close>

theorem sorted_flag_changes_partition:
  "extractEuclideanClusters coincident_cloud accept_all coincident_tree 1 [] 1 100
     = Inr ([], [\<lparr>pi_header = ''scan'', indices = [0]\<rparr>, \<lparr>pi_header = ''scan'', indices = [1]\<rparr>])
   \<and> extractEuclideanClusters coincident_cloud accept_all
        (coincident_tree\<lparr>getSortedResults := False\<rparr>) 1 [] 1 100
     = Inr ([], [\<lparr>pi_header = ''scan'', indices = [0, 1]\<rparr>])
   \<and> partition_of [\<lparr>pi_header = ''scan'', indices = [0]\<rparr>, \<lparr>pi_header = ''scan'', indices = [1]\<rparr>]
       \<noteq> partition_of [\<lparr>pi_header = ''scan'', indices = [0, 1]\<rparr>]"
  by (simp add: run_simps coincident_cloud_def coincident_tree_def accept_all_def upt_rec
      partition_of_def)

text \<open>
  Claim C6, amended. If every successful radius search around a point of the cloud lists
  the query point itself first, then the call gives the same diagnostics and the same
  clusters, in the same order, whether the tree reports sorted results (first neighbour
  skipped) or not; so the partition is the same.
\<close>

theorem sorted_flag_same_output:
  assumes "\<forall>x < length (points cloud). fst (radiusSearch tree x tolerance) \<noteq> 0 \<longrightarrow>
      snd (radiusSearch tree x tolerance) \<noteq> [] \<longrightarrow> snd (radiusSearch tree x tolerance) ! 0 = x"
  shows "extractEuclideanClusters_it it cloud f (tree\<lparr>getSortedResults := True\<rparr>)
             tolerance cs mn mx
           = extractEuclideanClusters_it it cloud f (tree\<lparr>getSortedResults := False\<rparr>)
               tolerance cs mn mx"
proof -
  let ?u = "tree\<lparr>getSortedResults := False\<rparr>" and ?s = "tree\<lparr>getSortedResults := True\<rparr>"
  have same: "radiusSearch ?s = radiusSearch ?u" by simp
  from assms have self: "\<forall>x < length (processed (initial_state cloud cs)).
      fst (radiusSearch ?u x tolerance) \<noteq> 0 \<longrightarrow>
      snd (radiusSearch ?u x tolerance) \<noteq> [] \<longrightarrow> snd (radiusSearch ?u x tolerance) ! 0 = x"
    by (simp add: initial_state_def)
  from same self have "it_loop f cloud ?u tolerance 0 mn mx it (initial_state cloud cs)
      = it_loop f cloud ?s tolerance (Suc 0) mn mx it (initial_state cloud cs)"
    by (rule it_loop_skip_self)
  then show ?thesis by (simp add: extractEuclideanClusters_it_def nn_start_def)
qed

theorem sorted_flag_same_output_witness:
  "extractEuclideanClusters_it [0, 1] cloud2 accept_all (adjacent_tree\<lparr>getSortedResults := True\<rparr>)
       1 [] 1 100
     = extractEuclideanClusters_it [0, 1] cloud2 accept_all
         (adjacent_tree\<lparr>getSortedResults := False\<rparr>) 1 [] 1 100
   \<and> extractEuclideanClusters_it [0, 1] cloud2 accept_all
         (adjacent_tree\<lparr>getSortedResults := False\<rparr>) 1 [] 1 100
     = Inr ([], [\<lparr>pi_header = ''scan'', indices = [0, 1]\<rparr>])"
proof -
  have h: "\<forall>x < length (points cloud2). fst (radiusSearch adjacent_tree x 1) \<noteq> 0 \<longrightarrow>
      snd (radiusSearch adjacent_tree x 1) \<noteq> [] \<longrightarrow> snd (radiusSearch adjacent_tree x 1) ! 0 = x"
    by (auto simp: adjacent_tree_def cloud2_def)
  have e: "extractEuclideanClusters_it [0, 1] cloud2 accept_all
         (adjacent_tree\<lparr>getSortedResults := False\<rparr>) 1 [] 1 100
     = Inr ([], [\<lparr>pi_header = ''scan'', indices = [0, 1]\<rparr>])"
    by (simp add: run_simps adjacent_tree_def cloud2_def accept_all_def)
  from sorted_flag_same_output [OF h, of "[0, 1]" accept_all "[]" 1 100] e
  show ?thesis by simp
qed

end
